theory Spec2Isabelle
  imports Complex_Main
begin

section \<open>Strided sliding-window perplexity (cell 12 of Perplexity\_Tutorial.ipynb)\<close>

text \<open>
  The notebook computes one number, \<open>ppl\<close>, from the token row
  \<open>encodings.input_ids\<close>, the context size \<open>max_length\<close> and \<open>stride\<close>.
  Python integers are unbounded, so they are \<open>int\<close>; the token tensor has one row and
  is an \<open>int list\<close>. The language model is an external collaborator: it is a
  parameter \<open>model input_ids target_ids\<close> that yields \<open>outputs.loss\<close>. Losses are
  32-bit floats in the notebook; here they are real numbers, so rounding is not part of
  the model. torch takes \<open>trg_len\<close> and the slice bounds as 64-bit integers; the model
  has no such bound, and is exact as long as they fit, which is the case whenever
  \<open>max_length \<ge> 1\<close> and \<open>stride \<ge> 1\<close> (then \<open>1 \<le> trg_len \<le> seq_len\<close>).
\<close>

subsection \<open>Python and torch primitives\<close>

datatype error = ValueError | RuntimeError | NameError

text \<open>
  The value left in \<open>ppl\<close>. Dividing a float tensor by the integer 0 raises nothing in
  torch; it yields an IEEE infinity or NaN, which no real number stands for.
\<close>

datatype ppl_value = Ppl real | DivZero

text \<open>
  A slice bound as Python and torch normalise it against a length \<open>n\<close>: a negative
  bound counts from the end and is clamped to 0, a bound beyond the end is clamped to
  \<open>n\<close>.
\<close>

definition slice_bound :: "nat \<Rightarrow> int \<Rightarrow> nat" where
  "slice_bound n i = (if i < 0 then nat (int n + i) else min (nat i) n)"

text \<open>\<open>xs[lo:hi]\<close>\<close>

definition py_slice :: "'a list \<Rightarrow> int \<Rightarrow> int \<Rightarrow> 'a list" where
  "py_slice xs lo hi =
     (let a = slice_bound (length xs) lo;
          b = slice_bound (length xs) hi
      in take (b - a) (drop a xs))"

text \<open>\<open>xs[:hi] = v\<close>, returning the updated row.\<close>

definition assign_prefix :: "'a list \<Rightarrow> int \<Rightarrow> 'a \<Rightarrow> 'a list" where
  "assign_prefix xs hi v =
     (let k = slice_bound (length xs) hi in replicate k v @ drop k xs)"

text \<open>
  \<open>range(lo, hi, step)\<close> for a non-zero step, as the list of the values it yields. A zero
  step makes \<open>range\<close> raise; the caller checks that.
\<close>

function py_range :: "int \<Rightarrow> int \<Rightarrow> int \<Rightarrow> int list" where
  "py_range lo hi step =
     (if 0 < step \<and> lo < hi then lo # py_range (lo + step) hi step
      else if step < 0 \<and> hi < lo then lo # py_range (lo + step) hi step
      else [])"
  by pat_completeness auto
termination
  by (relation "measure (\<lambda>(lo, hi, step). nat (if 0 < step then hi - lo else lo - hi))") auto

declare py_range.simps [simp del]

subsection \<open>The loop\<close>

text \<open>\<open>seq_len = encodings.input_ids.size(1)\<close>\<close>

definition seq_len :: "int list \<Rightarrow> int" where
  "seq_len ids = int (length ids)"

text \<open>The local variables of one executed iteration of the loop body.\<close>

record iteration =
  begin_loc :: int
  end_loc :: int
  trg_len :: int
  input_ids :: "int list"
  target_ids :: "int list"

text \<open>
  The variables that live across iterations: the list \<open>nlls\<close>, \<open>prev_end_loc\<close>, and the
  variable \<open>end_loc\<close> as it is read after the loop (\<open>end_var\<close>, unbound until an
  iteration assigns it). \<open>executed\<close> is a ghost field: the locals of every iteration
  that ran, in order.
\<close>

record state =
  nlls :: "real list"
  prev_end_loc :: int
  end_var :: "int option"
  executed :: "iteration list"

definition init :: state where
  "init = \<lparr>nlls = [], prev_end_loc = 0, end_var = None, executed = []\<rparr>"

text \<open>The loop body up to and including \<open>prev_end_loc = end_loc\<close>.\<close>

definition body :: "(int list \<Rightarrow> int list \<Rightarrow> real) \<Rightarrow> int list \<Rightarrow> int \<Rightarrow> state \<Rightarrow> int \<Rightarrow> state" where
  "body model ids max_length s b =
     (let e = min (b + max_length) (seq_len ids);
          t = e - prev_end_loc s;
          inp = py_slice ids b e;
          tgt = assign_prefix inp (- t) (- 100);
          neg_log_likelihood = model inp tgt * real_of_int t
      in \<lparr>nlls = nlls s @ [neg_log_likelihood],
          prev_end_loc = e,
          end_var = Some e,
          executed = executed s @
            [\<lparr>begin_loc = b, end_loc = e, trg_len = t, input_ids = inp, target_ids = tgt\<rparr>]\<rparr>)"

text \<open>
  The \<open>for\<close> loop over the values of the range, with its \<open>break\<close> when
  \<open>end_loc == seq_len\<close>.
\<close>

fun loop :: "(int list \<Rightarrow> int list \<Rightarrow> real) \<Rightarrow> int list \<Rightarrow> int \<Rightarrow> state \<Rightarrow> int list \<Rightarrow> state" where
  "loop model ids max_length s [] = s"
| "loop model ids max_length s (b # bs) =
     (let s' = body model ids max_length s b
      in if end_var s' = Some (seq_len ids) then s'
         else loop model ids max_length s' bs)"

text \<open>The state in which the loop ends; \<open>range\<close> has already accepted the stride.\<close>

definition run :: "(int list \<Rightarrow> int list \<Rightarrow> real) \<Rightarrow> int list \<Rightarrow> int \<Rightarrow> int \<Rightarrow> state" where
  "run model ids max_length stride =
     loop model ids max_length init (py_range 0 (seq_len ids) stride)"

text \<open>
  The whole cell (the spec's \<open>estimate_perplexity\<close>). \<open>range\<close> raises ValueError on a
  zero step, \<open>torch.stack\<close> raises RuntimeError on an empty list, and reading an unbound
  \<open>end_loc\<close> would raise NameError.
\<close>

definition ppl :: "(int list \<Rightarrow> int list \<Rightarrow> real) \<Rightarrow> int list \<Rightarrow> int \<Rightarrow> int \<Rightarrow> error + ppl_value" where
  "ppl model ids max_length stride =
     (if stride = 0 then Inl ValueError
      else let s = run model ids max_length stride
           in if nlls s = [] then Inl RuntimeError
              else (case end_var s of
                      None \<Rightarrow> Inl NameError
                    | Some e \<Rightarrow>
                        if e = 0 then Inr DivZero
                        else Inr (Ppl (exp (sum_list (nlls s) / real_of_int e)))))"

text \<open>The \<open>(begin_loc, end_loc, trg_len)\<close> triple of an iteration.\<close>

definition triple :: "iteration \<Rightarrow> int \<times> int \<times> int" where
  "triple w = (begin_loc w, end_loc w, trg_len w)"

text \<open>\<open>neg_log_likelihood = outputs.loss * trg_len\<close>, the entry an iteration appends to \<open>nlls\<close>.\<close>

definition neg_log_likelihood :: "(int list \<Rightarrow> int list \<Rightarrow> real) \<Rightarrow> iteration \<Rightarrow> real" where
  "neg_log_likelihood model w = model (input_ids w) (target_ids w) * real_of_int (trg_len w)"

subsection \<open>Notions used to state the properties\<close>

text \<open>
  What holds each time the loop reaches its head with the next \<open>begin_loc = b\<close>, when
  the preconditions hold: the previous window ended inside the sequence, at or after
  \<open>b\<close>, and less than \<open>max_length\<close> after it.
\<close>

definition head_inv :: "int list \<Rightarrow> int \<Rightarrow> state \<Rightarrow> int \<Rightarrow> bool" where
  "head_inv ids max_length s b \<longleftrightarrow>
     0 \<le> b \<and> b \<le> prev_end_loc s \<and> prev_end_loc s < seq_len ids
       \<and> prev_end_loc s < b + max_length"

text \<open>
  The positions of a window that count in its loss: the final \<open>trg_len\<close> entries of
  \<open>target_ids\<close>, which the slice assignment leaves alone.
\<close>

definition scored :: "iteration \<Rightarrow> int list" where
  "scored w = drop (length (target_ids w) - nat (trg_len w)) (target_ids w)"

text \<open>
  The successive values of \<open>prev_end_loc\<close> are 0 and then the \<open>end_loc\<close> of each
  executed window. \<open>chained ws p\<close>: they increase strictly, \<open>p\<close> is the latest of
  them, and every window's \<open>trg_len\<close> is its \<open>end_loc\<close> minus the value before it.
\<close>

definition chained :: "iteration list \<Rightarrow> int \<Rightarrow> bool" where
  "chained ws p \<longleftrightarrow>
     sorted_wrt (<) (0 # map end_loc ws)
     \<and> (\<forall>x\<in>set (0 # map end_loc ws). x \<le> p)
     \<and> (0 # map end_loc ws) ! length ws = p
     \<and> (\<forall>i<length ws. trg_len (ws ! i) = end_loc (ws ! i) - (0 # map end_loc ws) ! i)"

text \<open>
  What the ghost field records, for any input: each entry was built from its own triple,
  and \<open>end_loc\<close> and \<open>prev_end_loc\<close> hold the latest entry's \<open>end_loc\<close>.
\<close>

definition recorded :: "int list \<Rightarrow> state \<Rightarrow> bool" where
  "recorded ids s \<longleftrightarrow>
     (\<forall>w\<in>set (executed s).
        input_ids w = py_slice ids (begin_loc w) (end_loc w)
        \<and> target_ids w = assign_prefix (input_ids w) (- trg_len w) (- 100))
     \<and> end_var s = (if executed s = [] then None else Some (end_loc (last (executed s))))
     \<and> prev_end_loc s = (if executed s = [] then 0 else end_loc (last (executed s)))"

text \<open>
  With \<open>1 \<le> max_length < stride\<close>, at the loop head with next \<open>begin_loc = b\<close>:
  the previous window ended at or before \<open>b\<close>, and every window so far is a non-empty
  range inside the sequence with \<open>trg_len\<close> between 1 and \<open>seq_len\<close>.
\<close>

definition gapped :: "int list \<Rightarrow> state \<Rightarrow> int \<Rightarrow> bool" where
  "gapped ids s b \<longleftrightarrow>
     0 \<le> prev_end_loc s \<and> prev_end_loc s \<le> b \<and> prev_end_loc s \<le> seq_len ids
     \<and> (executed s \<noteq> [] \<longrightarrow> 1 \<le> prev_end_loc s)
     \<and> (\<forall>w\<in>set (executed s).
           0 \<le> begin_loc w \<and> begin_loc w < end_loc w \<and> end_loc w \<le> seq_len ids
           \<and> 1 \<le> trg_len w \<and> trg_len w \<le> seq_len ids)"

subsection \<open>The two-phase formulation\<close>

text \<open>
  The two-phase formulation of the spec's design notes (written from the spec, to be
  compared with the loop above). Phase one computes the
  \<open>(begin_loc, end_loc, trg_len)\<close> triples with no call to the model: \<open>plan_from\<close>
  walks the begin positions, carrying only the previous \<open>end_loc\<close>, and stops after the
  triple whose \<open>end_loc\<close> is the sequence length.
\<close>

fun plan_from :: "int \<Rightarrow> int \<Rightarrow> int \<Rightarrow> int list \<Rightarrow> (int \<times> int \<times> int) list" where
  "plan_from n max_length prev [] = []"
| "plan_from n max_length prev (b # bs) =
     (let e = min (b + max_length) n
      in (b, e, e - prev) # (if e = n then [] else plan_from n max_length e bs))"

definition window_plan :: "int list \<Rightarrow> int \<Rightarrow> int \<Rightarrow> (int \<times> int \<times> int) list" where
  "window_plan ids max_length stride =
     plan_from (seq_len ids) max_length 0 (py_range 0 (seq_len ids) stride)"

text \<open>
  Phase two scores each triple on its own: the window and its targets are rebuilt from
  the triple, and the result is \<open>avg_nll * trg_len\<close>.
\<close>

definition contribution :: "(int list \<Rightarrow> int list \<Rightarrow> real) \<Rightarrow> int list \<Rightarrow> int \<times> int \<times> int \<Rightarrow> real" where
  "contribution model ids = (\<lambda>(b, e, t).
     let window = py_slice ids b e;
         targets = assign_prefix window (- t) (- 100)
     in model window targets * real_of_int t)"

text \<open>
  The reduction: the contributions are summed in the order of the plan, and the sum is
  divided by the \<open>end_loc\<close> of the plan's final triple.
\<close>

definition reduce_plan :: "(int list \<Rightarrow> int list \<Rightarrow> real) \<Rightarrow> int list \<Rightarrow>
    (int \<times> int \<times> int) list \<Rightarrow> error + ppl_value" where
  "reduce_plan model ids plan =
     (if plan = [] then Inl RuntimeError
      else let e = fst (snd (last plan))
           in if e = 0 then Inr DivZero
              else Inr (Ppl (exp (sum_list (map (contribution model ids) plan) / real_of_int e))))"

definition two_phase :: "(int list \<Rightarrow> int list \<Rightarrow> real) \<Rightarrow> int list \<Rightarrow> int \<Rightarrow> int \<Rightarrow> error + ppl_value" where
  "two_phase model ids max_length stride =
     (if stride = 0 then Inl ValueError
      else reduce_plan model ids (window_plan ids max_length stride))"

subsection \<open>Disjoint chunking\<close>






section \<open>Slices, the loop body and the loop rule\<close>

lemma py_slice_inside:
  "0 \<le> lo \<Longrightarrow> lo \<le> hi \<Longrightarrow> hi \<le> int (length xs) \<Longrightarrow>
     py_slice xs lo hi = take (nat (hi - lo)) (drop (nat lo) xs)"
proof -
  assume a: "0 \<le> lo" "lo \<le> hi" "hi \<le> int (length xs)"
  then have "slice_bound (length xs) lo = nat lo" "slice_bound (length xs) hi = nat hi"
    by (auto simp: slice_bound_def)
  with a show ?thesis by (simp add: py_slice_def Let_def nat_diff_distrib)
qed

lemma assign_prefix_tail:
  "1 \<le> t \<Longrightarrow> t \<le> int (length xs) \<Longrightarrow>
     assign_prefix xs (- t) v =
       replicate (length xs - nat t) v @ drop (length xs - nat t) xs"
  by (simp add: assign_prefix_def slice_bound_def Let_def nat_diff_distrib)

lemma end_var_body [simp]:
  "end_var (body model ids max_length s b) = Some (min (b + max_length) (seq_len ids))"
  by (simp add: body_def Let_def)

lemma prev_end_loc_body [simp]:
  "prev_end_loc (body model ids max_length s b) = min (b + max_length) (seq_len ids)"
  by (simp add: body_def Let_def)

lemma range_step:
  "0 < stride \<Longrightarrow> b < n \<Longrightarrow> py_range b n stride = b # py_range (b + stride) n stride"
  by (subst py_range.simps) simp

lemma loop_rule:
  assumes st: "1 \<le> stride" "stride \<le> max_length"
    and cont: "\<And>s b. I s b \<Longrightarrow> b < seq_len ids \<Longrightarrow> b + max_length < seq_len ids
                 \<Longrightarrow> I (body model ids max_length s b) (b + stride)"
    and brk: "\<And>s b. I s b \<Longrightarrow> b < seq_len ids \<Longrightarrow> seq_len ids \<le> b + max_length
                 \<Longrightarrow> Q (body model ids max_length s b)"
  shows "b < seq_len ids \<Longrightarrow> I s b \<Longrightarrow>
           Q (loop model ids max_length s (py_range b (seq_len ids) stride))"
proof (induction "nat (seq_len ids - b)" arbitrary: b s rule: less_induct)
  case less
  let ?s' = "body model ids max_length s b"
  have r: "py_range b (seq_len ids) stride = b # py_range (b + stride) (seq_len ids) stride"
    using st less.prems by (simp add: range_step)
  show ?case
  proof (cases "seq_len ids \<le> b + max_length")
    case True
    then have "loop model ids max_length s (py_range b (seq_len ids) stride) = ?s'"
      by (simp add: r Let_def min_def)
    with brk [OF less.prems(2) less.prems(1) True] show ?thesis by simp
  next
    case False
    then have l: "loop model ids max_length s (py_range b (seq_len ids) stride)
        = loop model ids max_length ?s' (py_range (b + stride) (seq_len ids) stride)"
      by (simp add: r Let_def min_def)
    have "I ?s' (b + stride)"
      using cont [OF less.prems(2) less.prems(1)] False by simp
    moreover have "b + stride < seq_len ids" using False st by simp
    moreover have "nat (seq_len ids - (b + stride)) < nat (seq_len ids - b)"
      using st less.prems by simp
    ultimately show ?thesis using less.hyps l by simp
  qed
qed

lemma executed_body:
  "executed (body model ids max_length s b) = executed s @
     [\<lparr>begin_loc = b, end_loc = min (b + max_length) (seq_len ids),
        trg_len = min (b + max_length) (seq_len ids) - prev_end_loc s,
        input_ids = py_slice ids b (min (b + max_length) (seq_len ids)),
        target_ids = assign_prefix (py_slice ids b (min (b + max_length) (seq_len ids)))
           (- (min (b + max_length) (seq_len ids) - prev_end_loc s)) (- 100)\<rparr>]"
  by (simp add: body_def Let_def)

lemma nlls_body:
  "nlls (body model ids max_length s b) = nlls s @
     [model (py_slice ids b (min (b + max_length) (seq_len ids)))
        (assign_prefix (py_slice ids b (min (b + max_length) (seq_len ids)))
           (- (min (b + max_length) (seq_len ids) - prev_end_loc s)) (- 100))
      * real_of_int (min (b + max_length) (seq_len ids) - prev_end_loc s)]"
  by (simp add: body_def Let_def)

lemma window_input:
  "0 \<le> b \<Longrightarrow> b \<le> e \<Longrightarrow> e \<le> seq_len ids \<Longrightarrow>
     py_slice ids b e = take (nat (e - b)) (drop (nat b) ids)"
  by (simp add: py_slice_inside seq_len_def)

lemma window_targets:
  assumes "0 \<le> b" "b \<le> p" "p < e" "e \<le> seq_len ids"
  shows "assign_prefix (py_slice ids b e) (- (e - p)) v
           = replicate (nat (p - b)) v @ take (nat (e - p)) (drop (nat p) ids)"
proof -
  have inp: "py_slice ids b e = take (nat (e - b)) (drop (nat b) ids)"
    using assms by (simp add: window_input)
  have len: "length (py_slice ids b e) = nat (e - b)"
    using assms by (simp add: inp seq_len_def)
  have k: "nat (e - b) - nat (e - p) = nat (p - b)" using assms by simp
  have "assign_prefix (py_slice ids b e) (- (e - p)) v
      = replicate (nat (p - b)) v @ drop (nat (p - b)) (py_slice ids b e)"
    using assms by (subst assign_prefix_tail) (simp_all add: len k)
  also have "drop (nat (p - b)) (py_slice ids b e) = take (nat (e - p)) (drop (nat p) ids)"
  proof -
    have "nat (p - b) + nat b = nat p" "nat (e - b) - nat (p - b) = nat (e - p)"
      using assms by simp_all
    then show ?thesis by (simp add: inp drop_take)
  qed
  finally show ?thesis .
qed

lemma head_inv_init: "ids \<noteq> [] \<Longrightarrow> 1 \<le> max_length \<Longrightarrow> head_inv ids max_length init 0"
  by (simp add: head_inv_def init_def seq_len_def)

lemma head_inv_step:
  "head_inv ids max_length s b \<Longrightarrow> 1 \<le> stride \<Longrightarrow> stride \<le> max_length \<Longrightarrow>
     b + max_length < seq_len ids \<Longrightarrow>
     head_inv ids max_length (body model ids max_length s b) (b + stride)"
  by (simp add: head_inv_def)

lemma body_window:
  assumes "head_inv ids max_length s b" "b < seq_len ids"
    and "e = min (b + max_length) (seq_len ids)" "p = prev_end_loc s"
  shows "executed (body model ids max_length s b) = executed s @
     [\<lparr>begin_loc = b, end_loc = e, trg_len = e - p,
        input_ids = take (nat (e - b)) (drop (nat b) ids),
        target_ids = replicate (nat (p - b)) (- 100) @ take (nat (e - p)) (drop (nat p) ids)\<rparr>]"
proof -
  have "0 \<le> b" "b \<le> p" "p < e" "e \<le> seq_len ids" "b \<le> e"
    using assms by (auto simp: head_inv_def)
  then show ?thesis
    using assms(3,4) window_targets [of b p e ids "- 100"] window_input [of b e ids]
    by (simp add: executed_body)
qed

lemma run_rule:
  assumes pre: "ids \<noteq> []" "1 \<le> stride" "stride \<le> max_length"
    and start: "J init 0"
    and cont: "\<And>s b. head_inv ids max_length s b \<Longrightarrow> J s b \<Longrightarrow> b < seq_len ids \<Longrightarrow>
                 b + max_length < seq_len ids \<Longrightarrow> J (body model ids max_length s b) (b + stride)"
    and brk: "\<And>s b. head_inv ids max_length s b \<Longrightarrow> J s b \<Longrightarrow> b < seq_len ids \<Longrightarrow>
                 seq_len ids \<le> b + max_length \<Longrightarrow> Q (body model ids max_length s b)"
  shows "Q (run model ids max_length stride)"
  unfolding run_def
proof (rule loop_rule [where I = "\<lambda>s b. head_inv ids max_length s b \<and> J s b"])
  show "1 \<le> stride" "stride \<le> max_length" by (rule pre)+
  show "0 < seq_len ids" using pre(1) by (simp add: seq_len_def)
  show "head_inv ids max_length init 0 \<and> J init 0"
    using pre start by (simp add: head_inv_init)
next
  fix s b
  assume "head_inv ids max_length s b \<and> J s b" "b < seq_len ids" "b + max_length < seq_len ids"
  then show "head_inv ids max_length (body model ids max_length s b) (b + stride)
        \<and> J (body model ids max_length s b) (b + stride)"
    using pre by (simp add: head_inv_step cont)
next
  fix s b
  assume "head_inv ids max_length s b \<and> J s b" "b < seq_len ids" "seq_len ids \<le> b + max_length"
  then show "Q (body model ids max_length s b)" by (simp add: brk)
qed

lemma take_take_drop: "i \<le> j \<Longrightarrow> take i xs @ take (j - i) (drop i xs) = take j (xs::'a list)"
  by (metis le_add_diff_inverse take_add)

lemma coverage_step:
  assumes h: "head_inv ids max_length s b" "b < seq_len ids"
    and e: "e = min (b + max_length) (seq_len ids)"
    and j: "sum_list (map trg_len (executed s)) = prev_end_loc s
       \<and> concat (map scored (executed s)) = take (nat (prev_end_loc s)) ids"
  shows "sum_list (map trg_len (executed (body model ids max_length s b))) = e
       \<and> concat (map scored (executed (body model ids max_length s b))) = take (nat e) ids"
proof -
  let ?p = "prev_end_loc s"
  have b: "0 \<le> b" "b \<le> ?p" "?p < e" "e \<le> seq_len ids"
    using h e by (auto simp: head_inv_def)
  have ex: "executed (body model ids max_length s b) = executed s @
     [\<lparr>begin_loc = b, end_loc = e, trg_len = e - ?p,
        input_ids = take (nat (e - b)) (drop (nat b) ids),
        target_ids = replicate (nat (?p - b)) (- 100) @ take (nat (e - ?p)) (drop (nat ?p) ids)\<rparr>]"
    using h e by (rule body_window) simp
  have len: "length (take (nat (e - ?p)) (drop (nat ?p) ids)) = nat (e - ?p)"
    using b by (simp add: seq_len_def)
  have "take (nat ?p) ids @ take (nat e - nat ?p) (drop (nat ?p) ids) = take (nat e) ids"
    using b by (intro take_take_drop) simp
  moreover have "nat e - nat ?p = nat (e - ?p)" using b by simp
  ultimately show ?thesis
    using j len unfolding ex by (simp add: scored_def)
qed

section \<open>Coverage\<close>

text \<open>
  C1. Under the preconditions (non-empty tokens, \<open>max_length \<ge> 1\<close>,
  \<open>1 \<le> stride \<le> max_length\<close>) the \<open>trg_len\<close> of the executed windows sum to
  \<open>len(tokens)\<close>, and the scored parts of the windows, one after the other, are
  exactly the token sequence: no token is counted twice and none is skipped.
\<close>

theorem coverage:
  assumes "ids \<noteq> []" "1 \<le> max_length" "1 \<le> stride" "stride \<le> max_length"
  shows "sum_list (map trg_len (executed (run model ids max_length stride))) = seq_len ids
       \<and> concat (map scored (executed (run model ids max_length stride))) = ids"
proof (rule run_rule [where J = "\<lambda>s b. sum_list (map trg_len (executed s)) = prev_end_loc s
       \<and> concat (map scored (executed s)) = take (nat (prev_end_loc s)) ids"])
  show "ids \<noteq> []" "1 \<le> stride" "stride \<le> max_length" by (rule assms)+
  show "sum_list (map trg_len (executed init)) = prev_end_loc init
      \<and> concat (map scored (executed init)) = take (nat (prev_end_loc init)) ids"
    by (simp add: init_def)
next
  fix s b
  assume a: "head_inv ids max_length s b"
    "sum_list (map trg_len (executed s)) = prev_end_loc s
       \<and> concat (map scored (executed s)) = take (nat (prev_end_loc s)) ids"
    "b < seq_len ids"
  let ?s' = "body model ids max_length s b"
  note step = coverage_step [OF a(1) a(3) refl a(2), of model]
  { assume "b + max_length < seq_len ids"
    with step show "sum_list (map trg_len (executed ?s')) = prev_end_loc ?s'
       \<and> concat (map scored (executed ?s')) = take (nat (prev_end_loc ?s')) ids"
      by simp }
  { assume "seq_len ids \<le> b + max_length"
    then have "min (b + max_length) (seq_len ids) = seq_len ids" by simp
    with step show "sum_list (map trg_len (executed ?s')) = seq_len ids
       \<and> concat (map scored (executed ?s')) = ids"
      by (simp add: seq_len_def) }
qed

theorem coverage_witness:
  "[1, 2, 3, 4, 5, 6, 7, 8, 9, 10] \<noteq> ([] :: int list) \<and> (1::int) \<le> 5 \<and> (1::int) \<le> 3 \<and> (3::int) \<le> 5
   \<and> sum_list (map trg_len (executed (run (\<lambda>i t. 1) [1, 2, 3, 4, 5, 6, 7, 8, 9, 10] 5 3))) = 10
   \<and> concat (map scored (executed (run (\<lambda>i t. 1) [1, 2, 3, 4, 5, 6, 7, 8, 9, 10] 5 3)))
       = [1, 2, 3, 4, 5, 6, 7, 8, 9, 10]"
  using coverage [of "[1, 2, 3, 4, 5, 6, 7, 8, 9, 10]" 5 3 "\<lambda>i t. 1"]
  by (simp add: seq_len_def)

section \<open>The concrete scenario\<close>

text \<open>
  C3. For tokens 1..10, \<open>max_length = 5\<close> and \<open>stride = 3\<close> the loop runs exactly the
  windows (0,5,5), (3,8,3), (6,10,2), in this order, and stops there: the range also
  yields \<open>begin_loc = 9\<close>, which is never executed.
\<close>

theorem scenario_windows:
  "map triple (executed (run model [1, 2, 3, 4, 5, 6, 7, 8, 9, 10] 5 3))
     = [(0, 5, 5), (3, 8, 3), (6, 10, 2)]
   \<and> py_range 0 (seq_len [1, 2, 3, 4, 5, 6, 7, 8, 9, 10]) 3 = [0, 3, 6, 9]"
  by (simp add: run_def seq_len_def py_range.simps init_def body_def Let_def triple_def)

section \<open>What the loop leaves behind\<close>

lemma nlls_body_map:
  "nlls s = map (neg_log_likelihood model) (executed s) \<Longrightarrow>
     nlls (body model ids max_length s b)
       = map (neg_log_likelihood model) (executed (body model ids max_length s b))"
  by (simp add: neg_log_likelihood_def nlls_body executed_body)

lemma nlls_loop_map:
  "nlls s = map (neg_log_likelihood model) (executed s) \<Longrightarrow>
     nlls (loop model ids max_length s bs)
       = map (neg_log_likelihood model) (executed (loop model ids max_length s bs))"
proof (induction bs arbitrary: s)
  case Nil
  then show ?case by simp
next
  case (Cons b bs)
  let ?s' = "body model ids max_length s b"
  have s': "nlls ?s' = map (neg_log_likelihood model) (executed ?s')"
    using Cons.prems by (rule nlls_body_map)
  show ?case
  proof (cases "end_var ?s' = Some (seq_len ids)")
    case True
    then have "loop model ids max_length s (b # bs) = ?s'" by (simp add: Let_def)
    then show ?thesis using s' by simp
  next
    case False
    then have "loop model ids max_length s (b # bs) = loop model ids max_length ?s' bs"
      by (simp add: Let_def)
    then show ?thesis using Cons.IH [OF s'] by simp
  qed
qed

lemma nlls_run:
  "nlls (run model ids max_length stride)
     = map (neg_log_likelihood model) (executed (run model ids max_length stride))"
  unfolding run_def by (rule nlls_loop_map) (simp add: init_def)

lemma run_all_windows:
  assumes pre: "ids \<noteq> []" "1 \<le> stride" "stride \<le> max_length"
    and win: "\<And>b p e. 0 \<le> b \<Longrightarrow> b \<le> p \<Longrightarrow> p < e \<Longrightarrow> e \<le> seq_len ids \<Longrightarrow>
        e = min (b + max_length) (seq_len ids) \<Longrightarrow>
        P \<lparr>begin_loc = b, end_loc = e, trg_len = e - p,
           input_ids = take (nat (e - b)) (drop (nat b) ids),
           target_ids = replicate (nat (p - b)) (- 100) @ take (nat (e - p)) (drop (nat p) ids)\<rparr>"
  shows "\<forall>w\<in>set (executed (run model ids max_length stride)). P w"
proof (rule run_rule [where J = "\<lambda>s b. \<forall>w\<in>set (executed s). P w"])
  show "ids \<noteq> []" "1 \<le> stride" "stride \<le> max_length" by (rule pre)+
  show "\<forall>w\<in>set (executed init). P w" by (simp add: init_def)
next
  fix s b
  assume a: "head_inv ids max_length s b" "\<forall>w\<in>set (executed s). P w" "b < seq_len ids"
  let ?e = "min (b + max_length) (seq_len ids)"
  let ?p = "prev_end_loc s"
  have "P \<lparr>begin_loc = b, end_loc = ?e, trg_len = ?e - ?p,
           input_ids = take (nat (?e - b)) (drop (nat b) ids),
           target_ids = replicate (nat (?p - b)) (- 100) @ take (nat (?e - ?p)) (drop (nat ?p) ids)\<rparr>"
    using a(1,3) by (intro win) (auto simp: head_inv_def)
  then have all: "\<forall>w\<in>set (executed (body model ids max_length s b)). P w"
    using a(2) by (simp add: body_window [OF a(1) a(3) refl refl])
  { assume "b + max_length < seq_len ids"
    show "\<forall>w\<in>set (executed (body model ids max_length s b)). P w" by (rule all) }
  { assume "seq_len ids \<le> b + max_length"
    show "\<forall>w\<in>set (executed (body model ids max_length s b)). P w" by (rule all) }
qed

lemma run_ends:
  assumes pre: "ids \<noteq> []" "1 \<le> stride" "stride \<le> max_length"
  shows "end_var (run model ids max_length stride) = Some (seq_len ids)
       \<and> executed (run model ids max_length stride) \<noteq> []
       \<and> end_loc (last (executed (run model ids max_length stride))) = seq_len ids
       \<and> (\<forall>w\<in>set (butlast (executed (run model ids max_length stride))). end_loc w < seq_len ids)"
proof (rule run_rule [where J = "\<lambda>s b. \<forall>w\<in>set (executed s). end_loc w < seq_len ids"])
  show "ids \<noteq> []" "1 \<le> stride" "stride \<le> max_length" by (rule pre)+
  show "\<forall>w\<in>set (executed init). end_loc w < seq_len ids" by (simp add: init_def)
next
  fix s b
  assume a: "head_inv ids max_length s b" "\<forall>w\<in>set (executed s). end_loc w < seq_len ids"
    "b < seq_len ids"
  let ?s' = "body model ids max_length s b"
  { assume "b + max_length < seq_len ids"
    then show "\<forall>w\<in>set (executed ?s'). end_loc w < seq_len ids"
      using a(2) by (simp add: executed_body) }
  { assume "seq_len ids \<le> b + max_length"
    then show "end_var ?s' = Some (seq_len ids) \<and> executed ?s' \<noteq> []
       \<and> end_loc (last (executed ?s')) = seq_len ids
       \<and> (\<forall>w\<in>set (butlast (executed ?s')). end_loc w < seq_len ids)"
      using a(2) by (simp add: executed_body) }
qed

lemma run_trg_len:
  assumes "ids \<noteq> []" "1 \<le> stride" "stride \<le> max_length"
  shows "\<forall>w\<in>set (executed (run model ids max_length stride)). 1 \<le> trg_len w"
  using assms by (rule run_all_windows) (simp, arith)

text \<open>
  C2. Under the preconditions the cell returns a value: the loop ends through its
  \<open>break\<close>, at the first window whose \<open>end_loc\<close> is \<open>seq_len\<close>, every window it
  scored has \<open>trg_len \<ge> 1\<close> (no degenerate window), the variable \<open>end_loc\<close> holds
  \<open>seq_len\<close> afterwards, and \<open>ppl\<close> is \<open>exp\<close> of the sum of the windows'
  \<open>outputs.loss * trg_len\<close> divided by that \<open>end_loc\<close>.
\<close>

theorem ppl_returns:
  assumes "ids \<noteq> []" "1 \<le> max_length" "1 \<le> stride" "stride \<le> max_length"
  shows "ppl model ids max_length stride
           = Inr (Ppl (exp (sum_list (map (neg_log_likelihood model)
                                (executed (run model ids max_length stride)))
                            / real_of_int (seq_len ids))))
       \<and> end_var (run model ids max_length stride) = Some (seq_len ids)
       \<and> executed (run model ids max_length stride) \<noteq> []
       \<and> end_loc (last (executed (run model ids max_length stride))) = seq_len ids
       \<and> (\<forall>w\<in>set (butlast (executed (run model ids max_length stride))). end_loc w < seq_len ids)
       \<and> (\<forall>w\<in>set (executed (run model ids max_length stride)). 1 \<le> trg_len w)"
proof -
  note e = run_ends [OF assms(1,3,4), of model]
  have n: "seq_len ids \<noteq> 0" using assms(1) by (simp add: seq_len_def)
  have "nlls (run model ids max_length stride) \<noteq> []"
    using e by (simp add: nlls_run)
  then have "ppl model ids max_length stride
           = Inr (Ppl (exp (sum_list (map (neg_log_likelihood model)
                                (executed (run model ids max_length stride)))
                            / real_of_int (seq_len ids))))"
    using assms(3) e n by (simp add: ppl_def Let_def nlls_run)
  then show ?thesis
    using e run_trg_len [OF assms(1,3,4), of model] by simp
qed

theorem ppl_returns_witness:
  "[1, 2, 3, 4, 5, 6, 7, 8, 9, 10] \<noteq> ([] :: int list) \<and> (1::int) \<le> 5 \<and> (1::int) \<le> 3 \<and> (3::int) \<le> 5
   \<and> ppl (\<lambda>i t. 2) [1, 2, 3, 4, 5, 6, 7, 8, 9, 10] 5 3 = Inr (Ppl (exp 2))
   \<and> end_var (run (\<lambda>i t. 2) [1, 2, 3, 4, 5, 6, 7, 8, 9, 10] 5 3) = Some 10"
  using ppl_returns [of "[1, 2, 3, 4, 5, 6, 7, 8, 9, 10]" 5 3 "\<lambda>i t. 2"]
  by (simp add: seq_len_def neg_log_likelihood_def run_def py_range.simps init_def body_def Let_def)

section \<open>Windows and their targets\<close>

lemma window_lengths:
  assumes "0 \<le> b" "b \<le> p" "p < e" "e \<le> seq_len ids"
  shows "length (take (nat (e - b)) (drop (nat b) ids)) = nat (e - b)"
    and "length (take (nat (e - p)) (drop (nat p) ids)) = nat (e - p)"
    and "nat (e - b) - nat (e - p) = nat (p - b)"
    and "drop (nat (p - b)) (take (nat (e - b)) (drop (nat b) ids))
           = take (nat (e - p)) (drop (nat p) ids)"
proof -
  show "length (take (nat (e - b)) (drop (nat b) ids)) = nat (e - b)"
    and "length (take (nat (e - p)) (drop (nat p) ids)) = nat (e - p)"
    and "nat (e - b) - nat (e - p) = nat (p - b)"
    using assms by (simp_all add: seq_len_def)
  have "nat (p - b) + nat b = nat p" "nat (e - b) - nat (p - b) = nat (e - p)"
    using assms by simp_all
  then show "drop (nat (p - b)) (take (nat (e - b)) (drop (nat b) ids))
           = take (nat (e - p)) (drop (nat p) ids)"
    by (simp add: drop_take)
qed

lemma run_targets:
  assumes "ids \<noteq> []" "1 \<le> stride" "stride \<le> max_length"
  shows "\<forall>w\<in>set (executed (run model ids max_length stride)).
           input_ids w = py_slice ids (begin_loc w) (end_loc w)
         \<and> length (input_ids w) = nat (end_loc w - begin_loc w)
         \<and> length (target_ids w) = length (input_ids w)
         \<and> 1 \<le> trg_len w \<and> trg_len w \<le> end_loc w - begin_loc w
         \<and> take (length (input_ids w) - nat (trg_len w)) (target_ids w)
              = replicate (length (input_ids w) - nat (trg_len w)) (- 100)
         \<and> drop (length (input_ids w) - nat (trg_len w)) (target_ids w)
              = drop (length (input_ids w) - nat (trg_len w)) (input_ids w)"
  using assms
proof (rule run_all_windows)
  fix b p e
  assume a: "0 \<le> b" "b \<le> p" "p < e" "e \<le> seq_len ids"
  note w = window_lengths [OF a]
  let ?w = "\<lparr>begin_loc = b, end_loc = e, trg_len = e - p,
              input_ids = take (nat (e - b)) (drop (nat b) ids),
              target_ids = replicate (nat (p - b)) (- 100) @ take (nat (e - p)) (drop (nat p) ids)\<rparr>"
  have 1: "input_ids ?w = py_slice ids (begin_loc ?w) (end_loc ?w)"
    using a by (simp add: window_input)
  have 2: "length (input_ids ?w) = nat (end_loc ?w - begin_loc ?w)"
    using w(1) by simp
  have k: "length (input_ids ?w) - nat (trg_len ?w) = nat (p - b)"
    using w(1,3) by simp
  have 3: "length (target_ids ?w) = length (input_ids ?w)"
    using w(1,2) a by simp
  have 4: "1 \<le> trg_len ?w" "trg_len ?w \<le> end_loc ?w - begin_loc ?w"
    using a by simp_all
  have 5: "take (length (input_ids ?w) - nat (trg_len ?w)) (target_ids ?w)
              = replicate (length (input_ids ?w) - nat (trg_len ?w)) (- 100)"
    unfolding k by simp
  have 6: "drop (length (input_ids ?w) - nat (trg_len ?w)) (target_ids ?w)
              = drop (length (input_ids ?w) - nat (trg_len ?w)) (input_ids ?w)"
    unfolding k using w(4) by simp
  from 1 2 3 4 5 6
  show "input_ids ?w = py_slice ids (begin_loc ?w) (end_loc ?w)
         \<and> length (input_ids ?w) = nat (end_loc ?w - begin_loc ?w)
         \<and> length (target_ids ?w) = length (input_ids ?w)
         \<and> 1 \<le> trg_len ?w \<and> trg_len ?w \<le> end_loc ?w - begin_loc ?w
         \<and> take (length (input_ids ?w) - nat (trg_len ?w)) (target_ids ?w)
              = replicate (length (input_ids ?w) - nat (trg_len ?w)) (- 100)
         \<and> drop (length (input_ids ?w) - nat (trg_len ?w)) (target_ids ?w)
              = drop (length (input_ids ?w) - nat (trg_len ?w)) (input_ids ?w)"
    by blast
qed

text \<open>
  C4. Under the preconditions, every executed window is the slice
  \<open>tokens[begin_loc:end_loc]\<close>, and its \<open>target_ids\<close> is a copy of it in which the
  positions before the final \<open>trg_len\<close> hold the sentinel \<open>-100\<close> and the final
  \<open>trg_len\<close> positions hold the window's own token ids. In the scenario of tokens
  1..10 with \<open>max_length = 5\<close> and \<open>stride = 3\<close>, the second window is (3,8) with
  \<open>trg_len = 3\<close>: positions 0 and 1 are masked and positions 2, 3, 4 keep the tokens
  6, 7, 8.
\<close>

theorem targets_mask:
  "(ids \<noteq> [] \<and> 1 \<le> max_length \<and> 1 \<le> stride \<and> stride \<le> max_length \<longrightarrow>
     (\<forall>w\<in>set (executed (run model ids max_length stride)).
           input_ids w = py_slice ids (begin_loc w) (end_loc w)
         \<and> length (target_ids w) = length (input_ids w)
         \<and> take (length (input_ids w) - nat (trg_len w)) (target_ids w)
              = replicate (length (input_ids w) - nat (trg_len w)) (- 100)
         \<and> drop (length (input_ids w) - nat (trg_len w)) (target_ids w)
              = drop (length (input_ids w) - nat (trg_len w)) (input_ids w)))
   \<and> map (\<lambda>w. (triple w, input_ids w, target_ids w))
        (executed (run model [1, 2, 3, 4, 5, 6, 7, 8, 9, 10] 5 3)) ! 1
       = ((3, 8, 3), [4, 5, 6, 7, 8], [- 100, - 100, 6, 7, 8])"
proof (intro conjI impI)
  assume "ids \<noteq> [] \<and> 1 \<le> max_length \<and> 1 \<le> stride \<and> stride \<le> max_length"
  then have "ids \<noteq> []" "1 \<le> stride" "stride \<le> max_length" by simp_all
  from run_targets [OF this, of model]
  show "\<forall>w\<in>set (executed (run model ids max_length stride)).
           input_ids w = py_slice ids (begin_loc w) (end_loc w)
         \<and> length (target_ids w) = length (input_ids w)
         \<and> take (length (input_ids w) - nat (trg_len w)) (target_ids w)
              = replicate (length (input_ids w) - nat (trg_len w)) (- 100)
         \<and> drop (length (input_ids w) - nat (trg_len w)) (target_ids w)
              = drop (length (input_ids w) - nat (trg_len w)) (input_ids w)"
    by blast
next
  show "map (\<lambda>w. (triple w, input_ids w, target_ids w))
        (executed (run model [1, 2, 3, 4, 5, 6, 7, 8, 9, 10] 5 3)) ! 1
       = ((3, 8, 3), [4, 5, 6, 7, 8], [- 100, - 100, 6, 7, 8])"
    by code_simp
qed

theorem targets_mask_witness:
  "[1, 2, 3, 4, 5, 6, 7] \<noteq> ([] :: int list) \<and> (1::int) \<le> 4 \<and> (1::int) \<le> 2 \<and> (2::int) \<le> 4
   \<and> map target_ids (executed (run (\<lambda>i t. 1) [1, 2, 3, 4, 5, 6, 7] 4 2))
       = [[1, 2, 3, 4], [- 100, - 100, 5, 6], [- 100, - 100, 7]]"
proof -
  have e: "map target_ids (executed (run (\<lambda>i t. 1) [1, 2, 3, 4, 5, 6, 7] 4 2))
       = [[1, 2, 3, 4], [- 100, - 100, 5, 6], [- 100, - 100, 7]]"
    by code_simp
  show ?thesis
    using targets_mask [of "[1, 2, 3, 4, 5, 6, 7]" 4 2 "\<lambda>i t. 1"] e by simp
qed

section \<open>A sequence that fits one window\<close>



section \<open>Every window scores at least one token\<close>

lemma chained_Nil: "chained [] 0"
  by (simp add: chained_def)

lemma chained_snoc:
  assumes c: "chained ws p" and w: "p < end_loc w" "trg_len w = end_loc w - p"
  shows "chained (ws @ [w]) (end_loc w)"
proof -
  let ?E = "map end_loc ws"
  have s: "sorted_wrt (<) (0 # ?E)" and le: "\<forall>x\<in>set (0 # ?E). x \<le> p"
    and l: "(0 # ?E) ! length ws = p"
    and t: "\<forall>i<length ws. trg_len (ws ! i) = end_loc (ws ! i) - (0 # ?E) ! i"
    using c by (simp_all add: chained_def)
  have "sorted_wrt (<) ((0 # ?E) @ [end_loc w])"
    unfolding sorted_wrt_append using s le w(1) by auto
  then have 1: "sorted_wrt (<) (0 # map end_loc (ws @ [w]))" by simp
  have 2: "\<forall>x\<in>set (0 # map end_loc (ws @ [w])). x \<le> end_loc w"
    using le w(1) by auto
  have 3: "(0 # map end_loc (ws @ [w])) ! length (ws @ [w]) = end_loc w"
    by (simp add: nth_append)
  have 4: "trg_len ((ws @ [w]) ! i) = end_loc ((ws @ [w]) ! i) - (0 # map end_loc (ws @ [w])) ! i"
    if "i < length (ws @ [w])" for i
  proof (cases "i < length ws")
    case True
    then have "(0 # map end_loc (ws @ [w])) ! i = (0 # ?E) ! i"
      by (cases i) (simp_all add: nth_append)
    then show ?thesis using True t by (simp add: nth_append)
  next
    case False
    then have i: "i = length ws" using that by simp
    have "(0 # map end_loc (ws @ [w])) ! length ws = (0 # ?E) ! length ws"
      by (cases ws rule: rev_cases) (simp_all add: nth_append)
    then show ?thesis using l w(2) by (simp add: i)
  qed
  from 1 2 3 4 show ?thesis unfolding chained_def by blast
qed

lemma run_chained:
  assumes "ids \<noteq> []" "1 \<le> stride" "stride \<le> max_length"
  shows "chained (executed (run model ids max_length stride)) (seq_len ids)"
proof (rule run_rule [where J = "\<lambda>s b. chained (executed s) (prev_end_loc s)"])
  show "ids \<noteq> []" "1 \<le> stride" "stride \<le> max_length" by (rule assms)+
  show "chained (executed init) (prev_end_loc init)" by (simp add: init_def chained_Nil)
next
  fix s b
  assume a: "head_inv ids max_length s b" "chained (executed s) (prev_end_loc s)"
    "b < seq_len ids"
  let ?s' = "body model ids max_length s b"
  have "prev_end_loc s < min (b + max_length) (seq_len ids)"
    using a(1) by (simp add: head_inv_def)
  then have c: "chained (executed ?s') (prev_end_loc ?s')"
    using chained_snoc [OF a(2), of "last (executed ?s')"] by (simp add: executed_body)
  { assume "b + max_length < seq_len ids"
    show "chained (executed ?s') (prev_end_loc ?s')" by (rule c) }
  { assume "seq_len ids \<le> b + max_length"
    then show "chained (executed ?s') (seq_len ids)" using c by simp }
qed

text \<open>
  C10. Under the preconditions every executed iteration has
  \<open>1 \<le> trg_len \<le> end_loc - begin_loc\<close>, the window has \<open>end_loc - begin_loc\<close>
  positions, and the slice assignment masks exactly its first
  \<open>window length - trg_len\<close> positions and leaves the rest; \<open>trg_len\<close> is never 0.
  The values of \<open>prev_end_loc\<close> (0, then each window's \<open>end_loc\<close>) increase
  strictly, and each \<open>trg_len\<close> is the window's \<open>end_loc\<close> minus the value of
  \<open>prev_end_loc\<close> it read.
\<close>

theorem trg_len_positive:
  assumes "ids \<noteq> []" "1 \<le> max_length" "1 \<le> stride" "stride \<le> max_length"
  shows "(\<forall>w\<in>set (executed (run model ids max_length stride)).
            1 \<le> trg_len w \<and> trg_len w \<le> end_loc w - begin_loc w
          \<and> int (length (input_ids w)) = end_loc w - begin_loc w
          \<and> take (length (input_ids w) - nat (trg_len w)) (target_ids w)
               = replicate (length (input_ids w) - nat (trg_len w)) (- 100)
          \<and> drop (length (input_ids w) - nat (trg_len w)) (target_ids w)
               = drop (length (input_ids w) - nat (trg_len w)) (input_ids w))
       \<and> sorted_wrt (<) (0 # map end_loc (executed (run model ids max_length stride)))
       \<and> (\<forall>i<length (executed (run model ids max_length stride)).
            trg_len (executed (run model ids max_length stride) ! i)
              = end_loc (executed (run model ids max_length stride) ! i)
                - (0 # map end_loc (executed (run model ids max_length stride))) ! i)"
proof -
  note t = run_targets [OF assms(1,3,4), of model]
  have "\<forall>w\<in>set (executed (run model ids max_length stride)).
            1 \<le> trg_len w \<and> trg_len w \<le> end_loc w - begin_loc w
          \<and> int (length (input_ids w)) = end_loc w - begin_loc w
          \<and> take (length (input_ids w) - nat (trg_len w)) (target_ids w)
               = replicate (length (input_ids w) - nat (trg_len w)) (- 100)
          \<and> drop (length (input_ids w) - nat (trg_len w)) (target_ids w)
               = drop (length (input_ids w) - nat (trg_len w)) (input_ids w)"
  proof
    fix w assume "w \<in> set (executed (run model ids max_length stride))"
    with t have "input_ids w = py_slice ids (begin_loc w) (end_loc w)
         \<and> length (input_ids w) = nat (end_loc w - begin_loc w)
         \<and> length (target_ids w) = length (input_ids w)
         \<and> 1 \<le> trg_len w \<and> trg_len w \<le> end_loc w - begin_loc w
         \<and> take (length (input_ids w) - nat (trg_len w)) (target_ids w)
              = replicate (length (input_ids w) - nat (trg_len w)) (- 100)
         \<and> drop (length (input_ids w) - nat (trg_len w)) (target_ids w)
              = drop (length (input_ids w) - nat (trg_len w)) (input_ids w)"
      by (rule bspec)
    then have f: "length (input_ids w) = nat (end_loc w - begin_loc w)"
        "1 \<le> trg_len w" "trg_len w \<le> end_loc w - begin_loc w"
        "take (length (input_ids w) - nat (trg_len w)) (target_ids w)
               = replicate (length (input_ids w) - nat (trg_len w)) (- 100)"
        "drop (length (input_ids w) - nat (trg_len w)) (target_ids w)
               = drop (length (input_ids w) - nat (trg_len w)) (input_ids w)"
      by blast+
    from f(1,2,3) have "int (length (input_ids w)) = end_loc w - begin_loc w"
      by linarith
    with f show "1 \<le> trg_len w \<and> trg_len w \<le> end_loc w - begin_loc w
          \<and> int (length (input_ids w)) = end_loc w - begin_loc w
          \<and> take (length (input_ids w) - nat (trg_len w)) (target_ids w)
               = replicate (length (input_ids w) - nat (trg_len w)) (- 100)
          \<and> drop (length (input_ids w) - nat (trg_len w)) (target_ids w)
               = drop (length (input_ids w) - nat (trg_len w)) (input_ids w)"
      by blast
  qed
  then show ?thesis
    using run_chained [OF assms(1,3,4), of model] unfolding chained_def by blast
qed

theorem trg_len_positive_witness:
  "[1, 2, 3, 4, 5, 6, 7, 8, 9, 10] \<noteq> ([] :: int list) \<and> (1::int) \<le> 5 \<and> (1::int) \<le> 3 \<and> (3::int) \<le> 5
   \<and> map trg_len (executed (run (\<lambda>i t. 1) [1, 2, 3, 4, 5, 6, 7, 8, 9, 10] 5 3)) = [5, 3, 2]
   \<and> sorted_wrt (<) (0 # map end_loc (executed (run (\<lambda>i t. 1) [1, 2, 3, 4, 5, 6, 7, 8, 9, 10] 5 3)))"
proof -
  have e: "map trg_len (executed (run (\<lambda>i t. 1) [1, 2, 3, 4, 5, 6, 7, 8, 9, 10] 5 3)) = [5, 3, 2]"
    by code_simp
  show ?thesis
    using trg_len_positive [of "[1, 2, 3, 4, 5, 6, 7, 8, 9, 10]" 5 3 "\<lambda>i t. 1"] e by simp
qed

section \<open>Context of the later windows\<close>

lemma run_overlap:
  assumes pre: "ids \<noteq> []" "1 \<le> stride" "stride \<le> max_length"
  shows "\<forall>w\<in>set (tl (executed (run model ids max_length stride))).
           length (input_ids w) - nat (trg_len w) = nat (max_length - stride)
         \<and> nat (max_length - stride) \<le> length (target_ids w)
         \<and> take (nat (max_length - stride)) (target_ids w)
              = replicate (nat (max_length - stride)) (- 100)"
    (is "\<forall>w\<in>set (tl (executed _)). ?P w")
proof (rule run_rule [where J = "\<lambda>s b.
         (if executed s = [] then b = 0
          else prev_end_loc s = b + max_length - stride)
         \<and> (\<forall>w\<in>set (tl (executed s)). ?P w)"])
  show "ids \<noteq> []" "1 \<le> stride" "stride \<le> max_length" by (rule pre)+
  show "(if executed init = [] then (0::int) = 0
          else prev_end_loc init = 0 + max_length - stride)
         \<and> (\<forall>w\<in>set (tl (executed init)). ?P w)"
    by (simp add: init_def)
next
  fix s b
  assume h: "head_inv ids max_length s b"
    and j: "(if executed s = [] then b = 0
          else prev_end_loc s = b + max_length - stride)
         \<and> (\<forall>w\<in>set (tl (executed s)). ?P w)"
    and b: "b < seq_len ids"
  let ?s' = "body model ids max_length s b"
  let ?e = "min (b + max_length) (seq_len ids)"
  let ?p = "prev_end_loc s"
  let ?w = "\<lparr>begin_loc = b, end_loc = ?e, trg_len = ?e - ?p,
        input_ids = take (nat (?e - b)) (drop (nat b) ids),
        target_ids = replicate (nat (?p - b)) (- 100) @ take (nat (?e - ?p)) (drop (nat ?p) ids)\<rparr>"
  have ex: "executed ?s' = executed s @ [?w]"
    using h b by (rule body_window) simp_all
  have bd: "0 \<le> b" "b \<le> ?p" "?p < ?e" "?e \<le> seq_len ids"
    using h b by (auto simp: head_inv_def)
  note wl = window_lengths [OF bd]
  have new: "?P ?w" if "executed s \<noteq> []"
  proof -
    have "?p - b = max_length - stride" using j that by simp
    then show ?thesis using wl(1,3) by simp
  qed
  have all: "\<forall>w\<in>set (tl (executed ?s')). ?P w"
  proof (cases "executed s = []")
    case True
    then show ?thesis by (simp add: ex)
  next
    case False
    then have "tl (executed ?s') = tl (executed s) @ [?w]" by (simp add: ex)
    then show ?thesis using j new [OF False] by simp
  qed
  { assume c: "b + max_length < seq_len ids"
    then have "prev_end_loc ?s' = (b + stride) + max_length - stride" by simp
    then show "(if executed ?s' = [] then b + stride = 0
          else prev_end_loc ?s' = b + stride + max_length - stride)
         \<and> (\<forall>w\<in>set (tl (executed ?s')). ?P w)"
      using all by (simp add: ex) }
  { assume "seq_len ids \<le> b + max_length"
    show "\<forall>w\<in>set (tl (executed ?s')). ?P w" by (rule all) }
qed

text \<open>
  C8. When \<open>stride < max_length\<close> (tokens non-empty, \<open>stride \<ge> 1\<close>), every window
  after the first has a masked prefix of exactly \<open>max_length - stride\<close> positions:
  its first \<open>max_length - stride\<close> targets are the sentinel, and every scored
  position (an index at or after \<open>window length - trg_len\<close>) has at least
  \<open>max_length - stride\<close> positions of the window before it.
\<close>

theorem context_overlap:
  assumes "ids \<noteq> []" "1 \<le> stride" "stride < max_length"
  shows "\<forall>w\<in>set (tl (executed (run model ids max_length stride))).
           length (input_ids w) - nat (trg_len w) = nat (max_length - stride)
         \<and> take (nat (max_length - stride)) (target_ids w)
              = replicate (nat (max_length - stride)) (- 100)
         \<and> (\<forall>j<length (input_ids w).
               length (input_ids w) - nat (trg_len w) \<le> j \<longrightarrow> nat (max_length - stride) \<le> j)"
proof
  fix w assume "w \<in> set (tl (executed (run model ids max_length stride)))"
  with run_overlap [of ids stride max_length model] assms
  have "length (input_ids w) - nat (trg_len w) = nat (max_length - stride)
         \<and> nat (max_length - stride) \<le> length (target_ids w)
         \<and> take (nat (max_length - stride)) (target_ids w)
              = replicate (nat (max_length - stride)) (- 100)"
    by simp
  then show "length (input_ids w) - nat (trg_len w) = nat (max_length - stride)
         \<and> take (nat (max_length - stride)) (target_ids w)
              = replicate (nat (max_length - stride)) (- 100)
         \<and> (\<forall>j<length (input_ids w).
               length (input_ids w) - nat (trg_len w) \<le> j \<longrightarrow> nat (max_length - stride) \<le> j)"
    by simp
qed

theorem context_overlap_witness:
  "[1, 2, 3, 4, 5, 6, 7, 8, 9, 10] \<noteq> ([] :: int list) \<and> (1::int) \<le> 3 \<and> (3::int) < 5
   \<and> map (\<lambda>w. length (input_ids w) - nat (trg_len w))
        (tl (executed (run (\<lambda>i t. 1) [1, 2, 3, 4, 5, 6, 7, 8, 9, 10] 5 3))) = [2, 2]
   \<and> map (\<lambda>w. take 2 (target_ids w))
        (tl (executed (run (\<lambda>i t. 1) [1, 2, 3, 4, 5, 6, 7, 8, 9, 10] 5 3)))
       = [[- 100, - 100], [- 100, - 100]]"
proof -
  have e: "tl (executed (run (\<lambda>i t. 1) [1, 2, 3, 4, 5, 6, 7, 8, 9, 10] 5 3)) =
     [\<lparr>begin_loc = 3, end_loc = 8, trg_len = 3, input_ids = [4, 5, 6, 7, 8],
        target_ids = [- 100, - 100, 6, 7, 8]\<rparr>,
     \<lparr>begin_loc = 6, end_loc = 10, trg_len = 2, input_ids = [7, 8, 9, 10],
        target_ids = [- 100, - 100, 9, 10]\<rparr>]"
    by code_simp
  show ?thesis
    using context_overlap [of "[1, 2, 3, 4, 5, 6, 7, 8, 9, 10]" 3 5 "\<lambda>i t. 1"]
    by (simp add: e)
qed

section \<open>The loop and the two-phase formulation\<close>

lemma loop_invariant:
  assumes "P s" and "\<And>s b. P s \<Longrightarrow> P (body model ids max_length s b)"
  shows "P (loop model ids max_length s bs)"
  using assms(1)
proof (induction bs arbitrary: s)
  case Nil
  then show ?case by simp
next
  case (Cons b bs)
  have "P (body model ids max_length s b)" using Cons.prems by (rule assms(2))
  then show ?case using Cons.IH by (simp add: Let_def)
qed

lemma recorded_body: "recorded ids s \<Longrightarrow> recorded ids (body model ids max_length s b)"
  by (simp add: recorded_def executed_body)

lemma recorded_run: "recorded ids (run model ids max_length stride)"
  unfolding run_def
proof (rule loop_invariant [where P = "recorded ids"])
  show "recorded ids init" by (simp add: recorded_def init_def)
  show "recorded ids (body model ids max_length s b)" if "recorded ids s" for s b
    using that by (rule recorded_body)
qed

lemma triples_loop:
  "prev_end_loc s = p \<Longrightarrow>
   map triple (executed (loop model ids max_length s bs))
     = map triple (executed s) @ plan_from (seq_len ids) max_length p bs"
proof (induction bs arbitrary: s p)
  case Nil
  then show ?case by simp
next
  case (Cons b bs)
  let ?s' = "body model ids max_length s b"
  let ?e = "min (b + max_length) (seq_len ids)"
  have ex: "map triple (executed ?s') = map triple (executed s) @ [(b, ?e, ?e - p)]"
    using Cons.prems by (simp add: executed_body triple_def)
  show ?case
  proof (cases "?e = seq_len ids")
    case True
    then have l: "loop model ids max_length s (b # bs) = ?s'" by (simp add: Let_def)
    have pf: "plan_from (seq_len ids) max_length p (b # bs) = [(b, ?e, ?e - p)]"
      using True by (simp add: Let_def)
    show ?thesis unfolding l pf ex ..
  next
    case False
    then have l: "loop model ids max_length s (b # bs) = loop model ids max_length ?s' bs"
      by (simp add: Let_def)
    have pf: "plan_from (seq_len ids) max_length p (b # bs)
        = (b, ?e, ?e - p) # plan_from (seq_len ids) max_length ?e bs"
      using False by (auto simp: Let_def)
    have "map triple (executed (loop model ids max_length ?s' bs))
       = map triple (executed ?s') @ plan_from (seq_len ids) max_length ?e bs"
      by (rule Cons.IH) simp
    also have "\<dots> = map triple (executed s) @ plan_from (seq_len ids) max_length p (b # bs)"
      unfolding ex pf by simp
    finally show ?thesis unfolding l .
  qed
qed

lemma triples_run:
  "map triple (executed (run model ids max_length stride)) = window_plan ids max_length stride"
  unfolding run_def window_plan_def
  using triples_loop [of init 0 model ids max_length] by (simp add: init_def)

lemma nlls_plan:
  "nlls (run model ids max_length stride)
     = map (contribution model ids) (window_plan ids max_length stride)"
proof -
  have "neg_log_likelihood model w = contribution model ids (triple w)"
    if "w \<in> set (executed (run model ids max_length stride))" for w
    using recorded_run [of ids model max_length stride] that
    by (simp add: recorded_def neg_log_likelihood_def contribution_def triple_def Let_def)
  then have "map (neg_log_likelihood model) (executed (run model ids max_length stride))
      = map (contribution model ids) (map triple (executed (run model ids max_length stride)))"
    by simp
  then show ?thesis by (simp add: nlls_run triples_run)
qed

lemma end_var_plan:
  "end_var (run model ids max_length stride)
     = (if window_plan ids max_length stride = [] then None
        else Some (fst (snd (last (window_plan ids max_length stride)))))"
proof -
  let ?ws = "executed (run model ids max_length stride)"
  have e: "end_var (run model ids max_length stride)
      = (if ?ws = [] then None else Some (end_loc (last ?ws)))"
    using recorded_run [of ids model max_length stride] by (simp add: recorded_def)
  have p: "window_plan ids max_length stride = map triple ?ws"
    by (simp add: triples_run)
  show ?thesis
    unfolding e p by (simp add: last_map triple_def)
qed

text \<open>
  For every input the cell equals the two-phase formulation, with the same errors: the
  triples of the executed iterations are the precomputed plan (\<open>triples_run\<close>), and
  \<open>ppl\<close> is the reduction of the plan's contributions taken in the plan's order. In
  which order float32 contributions may be added is not a question this model can
  answer: its losses are real numbers.
\<close>

lemma ppl_two_phase_eq: "ppl model ids max_length stride = two_phase model ids max_length stride"
  by (simp add: ppl_def two_phase_def reduce_plan_def Let_def nlls_plan end_var_plan)


section \<open>Stride equal to the window size\<close>













section \<open>Inputs outside the preconditions\<close>

lemma loop_ran:
  "nlls (loop model ids max_length s (b # bs)) \<noteq> []
   \<and> end_var (loop model ids max_length s (b # bs))
       = Some (prev_end_loc (loop model ids max_length s (b # bs)))"
proof -
  let ?P = "\<lambda>s. nlls s \<noteq> [] \<and> end_var s = Some (prev_end_loc s)"
  have step: "?P (body model ids max_length s b)" for s b
    by (simp add: nlls_body)
  have "?P (loop model ids max_length (body model ids max_length s b) bs)"
    by (rule loop_invariant [where P = ?P]) (rule step)+
  then show ?thesis using step [of s b] by (simp add: Let_def)
qed

lemma range_none: "stride < 0 \<or> ids = [] \<Longrightarrow> py_range 0 (seq_len ids) stride = []"
  by (subst py_range.simps) (auto simp: seq_len_def)

lemma loop_head_rule:
  assumes st: "0 < stride"
    and step: "\<And>s b. I s b \<Longrightarrow> b < seq_len ids \<Longrightarrow>
                 I (body model ids max_length s b) (b + stride)"
  shows "I s b \<Longrightarrow>
           \<exists>b'. I (loop model ids max_length s (py_range b (seq_len ids) stride)) b'"
proof (induction "nat (seq_len ids - b)" arbitrary: b s rule: less_induct)
  case less
  show ?case
  proof (cases "b < seq_len ids")
    case False
    then have "py_range b (seq_len ids) stride = []"
      using st by (subst py_range.simps) simp
    then show ?thesis using less.prems by auto
  next
    case True
    let ?s' = "body model ids max_length s b"
    have r: "py_range b (seq_len ids) stride = b # py_range (b + stride) (seq_len ids) stride"
      using st True by (rule range_step)
    have i: "I ?s' (b + stride)" using less.prems True by (rule step)
    show ?thesis
    proof (cases "end_var ?s' = Some (seq_len ids)")
      case True
      then have "loop model ids max_length s (py_range b (seq_len ids) stride) = ?s'"
        unfolding r by (simp add: Let_def)
      then show ?thesis using i by auto
    next
      case False
      then have "loop model ids max_length s (py_range b (seq_len ids) stride)
          = loop model ids max_length ?s' (py_range (b + stride) (seq_len ids) stride)"
        unfolding r by (simp add: Let_def)
      moreover have "nat (seq_len ids - (b + stride)) < nat (seq_len ids - b)"
        using st True by simp
      ultimately show ?thesis using less.hyps [OF _ i] by simp
    qed
  qed
qed

lemma gapped_step:
  assumes "1 \<le> max_length" "max_length < stride" "gapped ids s b" "b < seq_len ids"
  shows "gapped ids (body model ids max_length s b) (b + stride)"
proof -
  let ?e = "min (b + max_length) (seq_len ids)"
  have p: "0 \<le> prev_end_loc s" "prev_end_loc s \<le> b" using assms(3) by (simp_all add: gapped_def)
  have e: "b < ?e" "?e \<le> seq_len ids" "?e \<le> b + stride" "1 \<le> ?e"
    using assms(1,2,4) p by simp_all
  have old: "\<forall>w\<in>set (executed s).
           0 \<le> begin_loc w \<and> begin_loc w < end_loc w \<and> end_loc w \<le> seq_len ids
           \<and> 1 \<le> trg_len w \<and> trg_len w \<le> seq_len ids"
    using assms(3) by (simp add: gapped_def)
  have new: "0 \<le> b \<and> b < ?e \<and> ?e \<le> seq_len ids
           \<and> 1 \<le> ?e - prev_end_loc s \<and> ?e - prev_end_loc s \<le> seq_len ids"
    using e p by linarith
  show ?thesis
    unfolding gapped_def using e p old new by (simp add: executed_body)
qed

lemma run_gapped:
  assumes "ids \<noteq> []" "1 \<le> max_length" "max_length < stride"
  shows "\<exists>b. gapped ids (run model ids max_length stride) b"
  unfolding run_def
proof (rule loop_head_rule [where I = "gapped ids"])
  show "0 < stride" using assms by simp
  show "gapped ids init 0" by (simp add: gapped_def init_def seq_len_def)
  show "gapped ids (body model ids max_length s b) (b + stride)"
    if "gapped ids s b" "b < seq_len ids" for s b
    using assms(2,3) that by (rule gapped_step)
qed

lemma run_ran:
  assumes "ids \<noteq> []" "0 < stride"
  shows "nlls (run model ids max_length stride) \<noteq> []
       \<and> end_var (run model ids max_length stride)
            = Some (prev_end_loc (run model ids max_length stride))"
proof -
  have "0 < seq_len ids" using assms(1) by (simp add: seq_len_def)
  with assms(2)
  have "py_range 0 (seq_len ids) stride = 0 # py_range (0 + stride) (seq_len ids) stride"
    by (rule range_step)
  then show ?thesis
    unfolding run_def using loop_ran [of model ids max_length init 0] by simp
qed

text \<open>
  C6, as the code has it. The cell checks none of its inputs and has no error of its
  own. It fails, and leaves no value in \<open>ppl\<close>, when \<open>stride = 0\<close> (\<open>range\<close> raises
  ValueError) and when \<open>stride < 0\<close> or the token sequence is empty (the loop body
  never runs and \<open>torch.stack\<close> raises RuntimeError on the empty list). A stride
  larger than \<open>max_length\<close> is not refused: with non-empty tokens and
  \<open>1 \<le> max_length < stride\<close> the cell returns \<open>exp\<close> of the accumulated sum over
  the final \<open>end_loc\<close>, which lies between 1 and \<open>seq_len\<close>; every window is a
  non-empty range inside the sequence and every \<open>trg_len\<close> lies between 1 and
  \<open>seq_len\<close>, so the integers torch receives are those of the model. Inputs with
  \<open>max_length < 1\<close>, \<open>stride \<ge> 1\<close> and tokens are not covered.
\<close>

theorem no_validation:
  "(stride = 0 \<longrightarrow> ppl model ids max_length stride = Inl ValueError)
   \<and> (stride < 0 \<or> stride \<noteq> 0 \<and> ids = [] \<longrightarrow>
        ppl model ids max_length stride = Inl RuntimeError)
   \<and> (ids \<noteq> [] \<and> 1 \<le> max_length \<and> max_length < stride \<longrightarrow>
        ppl model ids max_length stride
          = Inr (Ppl (exp (sum_list (nlls (run model ids max_length stride))
                           / real_of_int (prev_end_loc (run model ids max_length stride)))))
        \<and> 1 \<le> prev_end_loc (run model ids max_length stride)
        \<and> prev_end_loc (run model ids max_length stride) \<le> seq_len ids
        \<and> (\<forall>w\<in>set (executed (run model ids max_length stride)).
              0 \<le> begin_loc w \<and> begin_loc w < end_loc w \<and> end_loc w \<le> seq_len ids
              \<and> 1 \<le> trg_len w \<and> trg_len w \<le> seq_len ids))"
proof (intro conjI impI)
  assume "stride = 0"
  then show "ppl model ids max_length stride = Inl ValueError" by (simp add: ppl_def)
next
  assume a: "stride < 0 \<or> stride \<noteq> 0 \<and> ids = []"
  then have "stride < 0 \<or> ids = []" by blast
  then have "run model ids max_length stride = init"
    by (simp add: run_def range_none)
  moreover have "stride \<noteq> 0" using a by auto
  ultimately show "ppl model ids max_length stride = Inl RuntimeError"
    by (simp add: ppl_def init_def)
next
  assume a: "ids \<noteq> [] \<and> 1 \<le> max_length \<and> max_length < stride"
  then have pre: "ids \<noteq> []" "1 \<le> max_length" "max_length < stride" by simp_all
  have st: "0 < stride" using pre by simp
  note r = run_ran [OF pre(1) st, of model max_length]
  obtain b where g: "gapped ids (run model ids max_length stride) b"
    using run_gapped [OF pre, of model] by blast
  have "executed (run model ids max_length stride) \<noteq> []"
    using r by (simp add: nlls_run)
  then have p: "1 \<le> prev_end_loc (run model ids max_length stride)"
    using g by (simp add: gapped_def)
  show "1 \<le> prev_end_loc (run model ids max_length stride)" by (rule p)
  show "prev_end_loc (run model ids max_length stride) \<le> seq_len ids"
    using g by (simp add: gapped_def)
  show "\<forall>w\<in>set (executed (run model ids max_length stride)).
              0 \<le> begin_loc w \<and> begin_loc w < end_loc w \<and> end_loc w \<le> seq_len ids
              \<and> 1 \<le> trg_len w \<and> trg_len w \<le> seq_len ids"
    using g by (simp add: gapped_def)
  show "ppl model ids max_length stride
          = Inr (Ppl (exp (sum_list (nlls (run model ids max_length stride))
                           / real_of_int (prev_end_loc (run model ids max_length stride)))))"
    using st r p by (simp add: ppl_def Let_def)
qed

theorem no_validation_witness:
  "ppl (\<lambda>i t. 1) [1, 2, 3] 2 0 = Inl ValueError
   \<and> ppl (\<lambda>i t. 1) [1, 2, 3] 2 (- 1) = Inl RuntimeError
   \<and> ppl (\<lambda>i t. 1) [] 2 1 = Inl RuntimeError
   \<and> ppl (\<lambda>i t. 1) [1, 2, 3, 4, 5, 6] 2 3 = Inr (Ppl (exp 1))
   \<and> map triple (executed (run (\<lambda>i t. 1) [1, 2, 3, 4, 5, 6] 2 3)) = [(0, 2, 2), (3, 5, 3)]"
proof -
  have r: "nlls (run (\<lambda>i t. 1) [1, 2, 3, 4, 5, 6] 2 3) = [2, 3]"
    "prev_end_loc (run (\<lambda>i t. 1) [1, 2, 3, 4, 5, 6] 2 3) = 5"
    by code_simp+
  have t: "map triple (executed (run (\<lambda>i t. 1) [1, 2, 3, 4, 5, 6] 2 3)) = [(0, 2, 2), (3, 5, 3)]"
    by code_simp
  show ?thesis
    using no_validation [of 0 "\<lambda>i t. 1" "[1, 2, 3]" 2]
      no_validation [of "- 1" "\<lambda>i t. 1" "[1, 2, 3]" 2]
      no_validation [of 1 "\<lambda>i t. 1" "[]" 2]
      no_validation [of 3 "\<lambda>i t. 1" "[1, 2, 3, 4, 5, 6]" 2]
    by (simp add: r t)
qed

text \<open>
  The claim C6 as stated (every violated precondition makes the cell fail and return no
  value) is false: with \<open>stride = 3 > max_length = 2\<close> on five tokens the windows are
  (0,2) and (3,5), token 3 is never scored, and a perplexity is returned.
\<close>

theorem no_validation_counterexample:
  "(2::int) < 3 \<and> ppl (\<lambda>i t. 1) [1, 2, 3, 4, 5] 2 3 = Inr (Ppl (exp 1))"
proof -
  have r: "nlls (run (\<lambda>i t. 1) [1, 2, 3, 4, 5] 2 3) = [2, 3]"
    "end_var (run (\<lambda>i t. 1) [1, 2, 3, 4, 5] 2 3) = Some 5"
    by (simp_all add: run_def seq_len_def py_range.simps init_def body_def Let_def)
  show ?thesis by (simp add: ppl_def r)
qed

end
